theory Spec2Isabelle
  imports Main "HOL-Library.Word"
begin

unbundle bit_operations_syntax

section \<open>Common types\<close>

type_synonym byte = "8 word"

text \<open>
  The Go code reports failures as \<open>errors.New\<close> strings; each constructor stands for one
  message of the source (quoted beside it). \<open>RuntimePanic\<close> is not a returned error: it is
  the Go runtime panic of an index or slice expression out of range, which aborts the call.
\<close>

datatype error =
    InputTooShort          \<comment> \<open>"frame bytes < 3" (used by both VP8 length checks)\<close>
  | InvalidStartCode       \<comment> \<open>"not find Start code"\<close>
  | NotKeyFrame            \<comment> \<open>"the frame is not Key frame"\<close>
  | ParseError             \<comment> \<open>"failed to parse VP9 header, likely due to out-of-bounds read"\<close>
  | RtpDecodeError         \<comment> \<open>whatever \<open>RtpPacket.Decode\<close> returns\<close>
  | EmptyPayload           \<comment> \<open>"vp8 rtp packet payload is empty"\<close>
  | ShortExtendedHeader    \<comment> \<open>"invalid vp8 payload: short extended header"\<close>
  | ShortPictureId         \<comment> \<open>"invalid vp8 payload: short picture id"\<close>
  | BitstreamUnderflow     \<comment> \<open>the bit reader ran past the buffer\<close>
  | RuntimePanic           \<comment> \<open>index out of range / slice bounds out of range\<close>

section \<open>VP8 header parser (go-codec/vp8.go)\<close>

record VP8FrameTag =
  FrameType :: "32 word"
  Version :: "32 word"
  Display :: "32 word"
  FirstPartSize :: "32 word"

record VP8KeyFrameHead =
  Width :: int
  Height :: int
  HorizScale :: int
  VertScale :: int

text \<open>The three tag bytes packed into a \<open>uint32\<close>, byte 0 least significant.\<close>

definition frame_tag_word :: "byte list \<Rightarrow> 32 word" where
  "frame_tag_word frame =
     push_bit 16 (ucast (frame ! 2)) OR push_bit 8 (ucast (frame ! 1)) OR ucast (frame ! 0)"

definition DecodeFrameTag :: "byte list \<Rightarrow> error + VP8FrameTag" where
  "DecodeFrameTag frame =
     (if length frame < 3 then Inl InputTooShort
      else let tmp = frame_tag_word frame in
        Inr \<lparr> FrameType = tmp AND 0x01,
              Version = drop_bit 1 tmp AND 0x07,
              Display = drop_bit 4 tmp AND 0x01,
              FirstPartSize = drop_bit 5 tmp AND 0x7FFFF \<rparr>)"

definition DecodeKeyFrameHead :: "byte list \<Rightarrow> error + VP8KeyFrameHead" where
  "DecodeKeyFrameHead frame =
     (if length frame < 7 then Inl InputTooShort
      else if frame ! 0 \<noteq> 0x9d \<or> frame ! 1 \<noteq> 0x01 \<or> frame ! 2 \<noteq> 0x2a then Inl InvalidStartCode
      else
        Inr \<lparr> Width = uint (push_bit 8 (ucast (frame ! 4 AND 0x3f) :: 16 word) OR ucast (frame ! 3)),
              Height = uint (push_bit 8 (ucast (frame ! 6 AND 0x3f) :: 16 word) OR ucast (frame ! 5)),
              HorizScale = uint (drop_bit 6 (frame ! 4)),
              VertScale = uint (drop_bit 6 (frame ! 6)) \<rparr>)"

definition IsVP8KeyFrame :: "byte list \<Rightarrow> bool" where
  "IsVP8KeyFrame frame =
     (case DecodeFrameTag frame of
        Inl err \<Rightarrow> False
      | Inr tag \<Rightarrow> if FrameType tag = 0 then True else False)"

text \<open>
  \<open>GetVP8Resloution\<close> of go-codec/vp8.go slices \<open>frame[3:]\<close> first; Go panics on that
  slice expression when the frame has fewer than 3 bytes.
\<close>

definition GetVP8Resloution :: "byte list \<Rightarrow> error + (int \<times> int)" where
  "GetVP8Resloution frame =
     (if length frame < 3 then Inl RuntimePanic
      else case DecodeKeyFrameHead (drop 3 frame) of
        Inl err \<Rightarrow> Inl err
      | Inr head \<Rightarrow> Inr (Width head, Height head))"

text \<open>
  The repository holds a second copy of the VP8 parser, with the same \<open>DecodeFrameTag\<close>
  and \<open>DecodeKeyFrameHead\<close>; there the key-frame test is called \<open>IsKeyFrame\<close> and
  \<open>GetResloution\<close> is guarded by it.
\<close>

definition IsKeyFrame :: "byte list \<Rightarrow> bool" where
  "IsKeyFrame frame =
     (case DecodeFrameTag frame of
        Inl err \<Rightarrow> False
      | Inr tag \<Rightarrow> if FrameType tag = 0 then True else False)"

definition GetResloution :: "byte list \<Rightarrow> error + (int \<times> int)" where
  "GetResloution frame =
     (if \<not> IsKeyFrame frame then Inl NotKeyFrame
      else case DecodeKeyFrameHead (drop 3 frame) of
        Inl err \<Rightarrow> Inl err
      | Inr head \<Rightarrow> Inr (Width head, Height head))"

section \<open>Bit reader\<close>

text \<open>
  Modelled from the spec: the \<open>BitStream\<close> type used by \<open>GetVP9Resloution\<close>
  (\<open>NewBitStream\<close>, \<open>GetBits\<close>, \<open>SkipBits\<close>) is not among the source files. The spec's
  BitReader is a sequential cursor over an immutable byte buffer; bits are consumed
  most-significant first across byte boundaries (bit 0 is the top bit of byte 0); a read or
  skip wider than what remains fails with \<open>BitstreamUnderflow\<close> and leaves the cursor where
  it was.
\<close>

record BitStream =
  buffer :: "byte list"
  position :: nat

type_synonym 'a reader = "BitStream \<Rightarrow> error + ('a \<times> BitStream)"

definition NewBitStream :: "byte list \<Rightarrow> BitStream" where
  "NewBitStream buf = \<lparr> buffer = buf, position = 0 \<rparr>"

definition bit_at :: "byte list \<Rightarrow> nat \<Rightarrow> bool" where
  "bit_at buf i = bit (buf ! (i div 8)) (7 - i mod 8)"

text \<open>The value of the \<open>n\<close> bits from bit offset \<open>p\<close> on, the first one most significant.\<close>

fun bits_value :: "byte list \<Rightarrow> nat \<Rightarrow> nat \<Rightarrow> nat" where
  "bits_value buf p 0 = 0"
| "bits_value buf p (Suc n) = 2 * bits_value buf p n + (if bit_at buf (p + n) then 1 else 0)"

definition GetBits :: "nat \<Rightarrow> nat reader" where
  "GetBits n bs =
     (if 8 * length (buffer bs) < position bs + n then Inl BitstreamUnderflow
      else Inr (bits_value (buffer bs) (position bs) n, bs\<lparr>position := position bs + n\<rparr>))"

definition SkipBits :: "nat \<Rightarrow> unit reader" where
  "SkipBits n bs =
     (if 8 * length (buffer bs) < position bs + n then Inl BitstreamUnderflow
      else Inr ((), bs\<lparr>position := position bs + n\<rparr>))"

text \<open>Sequencing of reads: the first failure ends the parse.\<close>

definition return_r :: "'a \<Rightarrow> 'a reader" where
  "return_r x bs = Inr (x, bs)"

definition bind_r :: "'a reader \<Rightarrow> ('a \<Rightarrow> 'b reader) \<Rightarrow> 'b reader" where
  "bind_r m f bs = (case m bs of Inl e \<Rightarrow> Inl e | Inr (x, bs') \<Rightarrow> f x bs')"

definition then_r :: "unit reader \<Rightarrow> 'b reader \<Rightarrow> 'b reader" where
  "then_r m k = bind_r m (\<lambda>_. k)"

definition when_r :: "bool \<Rightarrow> unit reader \<Rightarrow> unit reader" where
  "when_r c m = (if c then m else return_r ())"

section \<open>VP9 header parser (go-codec/vp9.go)\<close>

definition IsVP9KeyFrame :: "byte list \<Rightarrow> bool" where
  "IsVP9KeyFrame frame =
     (if length frame < 1 then False
      else let b = frame ! 0 in
        if b AND 0xC0 \<noteq> 0x80 then False
        else if b AND 0x08 \<noteq> 0 then False
        else (drop_bit 2 b AND 1) = 0)"

text \<open>
  \<open>GetVP9Resloution\<close>, lines 70 to 111: frame marker, profile, show-existing-frame, the
  three flag bits, the sync code and the colour configuration. \<open>profile\<close> is its only local
  that later reads depend on, and nothing after the colour configuration uses it.
\<close>

definition vp9_header_prefix :: "unit reader" where
  "vp9_header_prefix =
     then_r (SkipBits 2) (
     bind_r (GetBits 1) (\<lambda>profileHigh.
     bind_r (GetBits 1) (\<lambda>profileLow.
     let profile = push_bit 1 profileHigh OR profileLow in
     then_r (when_r (profile = 3) (SkipBits 1)) (
     bind_r (GetBits 1) (\<lambda>showExistingFrame.
     then_r (when_r (showExistingFrame = 1) (SkipBits 3)) (
     then_r (SkipBits 1) (
     then_r (SkipBits 1) (
     then_r (SkipBits 1) (
     then_r (SkipBits 24) (
     then_r (when_r (2 \<le> profile)
        (bind_r (GetBits 1) (\<lambda>highBitdepth. when_r (highBitdepth = 1) (SkipBits 1)))) (
     bind_r (GetBits 3) (\<lambda>colorSpace.
       if colorSpace \<noteq> 7 then
         then_r (SkipBits 1) (
           when_r (profile = 1 \<or> profile = 3) (then_r (SkipBits 2) (SkipBits 1)))
       else
         when_r (profile = 1 \<or> profile = 3) (SkipBits 1)))))))))))))"

text \<open>\<open>GetVP9Resloution\<close>, lines 114 to 124: the frame size.\<close>

definition vp9_frame_size :: "(int \<times> int) reader" where
  "vp9_frame_size =
     bind_r (GetBits 1) (\<lambda>renderAndFrameSizeDifferent.
     then_r (when_r (renderAndFrameSizeDifferent = 1) (then_r (SkipBits 16) (SkipBits 16))) (
     bind_r (GetBits 16) (\<lambda>widthMinus1.
     bind_r (GetBits 16) (\<lambda>heightMinus1.
     return_r (int widthMinus1 + 1, int heightMinus1 + 1)))))"

text \<open>
  The deferred \<open>recover()\<close> turns a panic of the bit reader into the one error of this
  function; the named results are then not returned as a resolution.
\<close>

definition GetVP9Resloution :: "byte list \<Rightarrow> error + (int \<times> int)" where
  "GetVP9Resloution frame =
     (case then_r vp9_header_prefix vp9_frame_size (NewBitStream frame) of
        Inl e \<Rightarrow> Inl ParseError
      | Inr (wh, bs) \<Rightarrow> Inr wh)"

text \<open>
  \<open>CreateVP9VpcCExtradata\<close> reads \<open>keyframe[0]\<close> with no length test: on an empty slice the
  index expression panics.
\<close>

definition CreateVP9VpcCExtradata :: "byte list \<Rightarrow> error + byte list" where
  "CreateVP9VpcCExtradata keyframe =
     (case keyframe of
        [] \<Rightarrow> Inl RuntimePanic
      | b # rest \<Rightarrow>
          let profile = drop_bit 4 b AND 0x03;
              bitDepth = (if profile = 2 \<or> profile = 3 then 10 else 8 :: byte);
              chromaSubsampling = (0 :: byte);
              videoFullRangeFlag = (0 :: byte)
          in Inr [profile, 0,
                  push_bit 4 (bitDepth AND 0x0F) OR push_bit 1 (chromaSubsampling AND 0x07)
                    OR (videoFullRangeFlag AND 0x01),
                  2, 2, 2, 0, 0])"

section \<open>VP8 RTP depacketizer (\<open>VP8UnPacker\<close>, in the second part of go-codec/vp9.go)\<close>

text \<open>
  Modelled from the spec: the declarations of \<open>RtpPacket\<close> and \<open>CommUnPacker\<close> are not
  among the source files. A decoded packet carries the sequence number (16 bits), the
  timestamp (32 bits), the marker (compared with 1 by the code) and the payload.
  \<open>CommUnPacker\<close> holds the two callbacks, either of which may be nil; the model keeps
  whether each is installed and records their calls, in order, as events.
\<close>

record RtpPacket =
  SequenceNumber :: "16 word"
  Timestamp :: "32 word"
  Marker :: "8 word"
  Payload :: "byte list"

datatype event =
    RtpSeen RtpPacket                        \<comment> \<open>\<open>onRtp(pkg)\<close>\<close>
  | FrameOut "byte list" "32 word" bool      \<comment> \<open>\<open>onFrame(bytes, timestamp, lost)\<close>\<close>

record VP8UnPacker =
  onRtp :: bool
  onFrame :: bool
  frameBuffer :: "byte list"
  timestamp :: "32 word"
  lastSequence :: "16 word"
  lost :: bool
  building :: bool

definition NewVP8UnPacker :: VP8UnPacker where
  "NewVP8UnPacker =
     \<lparr> onRtp = False, onFrame = False, frameBuffer = [], timestamp = 0, lastSequence = 0,
       lost = False, building = False \<rparr>"

text \<open>
  Lines 236 to 253 of \<open>UnPack\<close>: a packet either opens a group (flushing what an unfinished
  group left in the buffer) or continues the current one; then the sequence number is kept.
\<close>

definition track_group :: "VP8UnPacker \<Rightarrow> RtpPacket \<Rightarrow> VP8UnPacker \<times> event list" where
  "track_group u pkg =
     (if \<not> building u \<or> Timestamp pkg \<noteq> timestamp u then
        (u\<lparr> building := True, timestamp := Timestamp pkg, lastSequence := SequenceNumber pkg,
            frameBuffer := [], lost := False \<rparr>,
         if building u \<and> 0 < length (frameBuffer u) \<and> onFrame u
         then [FrameOut (frameBuffer u) (timestamp u) True] else [])
      else
        ((if lastSequence u + 1 \<noteq> SequenceNumber pkg then u\<lparr> lost := True \<rparr> else u)
           \<lparr> lastSequence := SequenceNumber pkg \<rparr>, []))"

text \<open>
  Lines 255 to 280: the length of the payload descriptor. The payload is not empty here.
  The two guards return their errors from \<open>UnPack\<close> itself.
\<close>

definition payload_header_length :: "byte list \<Rightarrow> error + nat" where
  "payload_header_length payload =
     (if 0 < (payload ! 0 AND 0x80) then
        if length payload < 2 then Inl ShortExtendedHeader
        else
          let extHdr = payload ! 1 in
          case (if 0 < (extHdr AND 0x80) then
                  if length payload < 2 + 1 then Inl ShortPictureId
                  else if 0 < (payload ! 2 AND 0x80) then Inr (2 + 2) else Inr (2 + 1)
                else Inr 2) of
            Inl e \<Rightarrow> Inl e
          | Inr h1 \<Rightarrow>
              let h2 = (if 0 < (extHdr AND 0x40) then h1 + 1 else h1);
                  h3 = (if 0 < (extHdr AND 0x20) \<or> 0 < (extHdr AND 0x10) then h2 + 1 else h2)
              in Inr h3
      else Inr 1)"

text \<open>
  \<open>UnPack\<close>. The RTP header decoder (\<open>RtpPacket.Decode\<close>) is not among the source files:
  its outcome on the raw packet is the argument, \<open>Inl\<close> for its error. The result is the
  returned error (\<open>None\<close> for nil), the receiver after the call and the callbacks made.
\<close>

definition UnPack :: "VP8UnPacker \<Rightarrow> error + RtpPacket \<Rightarrow> error option \<times> VP8UnPacker \<times> event list" where
  "UnPack u decoded =
     (case decoded of
        Inl err \<Rightarrow> (Some err, u, [])
      | Inr pkg \<Rightarrow>
          if length (Payload pkg) < 1 then (Some EmptyPayload, u, [])
          else
            let ev1 = (if onRtp u then [RtpSeen pkg] else []);
                (u1, ev2) = track_group u pkg;
                payload = Payload pkg
            in case payload_header_length payload of
                 Inl err \<Rightarrow> (Some err, u1, ev1 @ ev2)
               | Inr headerLength \<Rightarrow>
                   let u2 = (if length payload < headerLength then u1\<lparr> lost := True \<rparr>
                             else u1\<lparr> frameBuffer := frameBuffer u1 @ drop headerLength payload \<rparr>)
                   in if Marker pkg = 1 then
                        (None, u2\<lparr> building := False, frameBuffer := [] \<rparr>,
                         ev1 @ ev2 @
                           (if onFrame u2 then [FrameOut (frameBuffer u2) (timestamp u2) (lost u2)]
                            else []))
                      else (None, u2, ev1 @ ev2))"

text \<open>
  The descriptor length as the spec words it (section 4.4, step 5), for comparison with
  \<open>payload_header_length\<close>: one mandatory byte; with the extension bit, one extension
  byte; with the picture-ID bit, one or two bytes according to the high bit of the byte that
  follows; one more for TL0PICIDX; one more for the temporal-layer index or the key index.
  A byte the payload does not have sets no bit.
\<close>

definition byte_or_zero :: "byte list \<Rightarrow> nat \<Rightarrow> byte" where
  "byte_or_zero payload i = (if i < length payload then payload ! i else 0)"

definition spec_descriptor_length :: "byte list \<Rightarrow> nat" where
  "spec_descriptor_length payload =
     (if bit (byte_or_zero payload 0) 7 then
        let ext = byte_or_zero payload 1 in
        2 + (if bit ext 7 then (if bit (byte_or_zero payload 2) 7 then 2 else 1) else 0)
          + (if bit ext 6 then 1 else 0)
          + (if bit ext 5 \<or> bit ext 4 then 1 else 0)
      else 1)"

text \<open>The invariant of the depacketizer state: bytes are buffered only while building.\<close>

definition buffer_invariant :: "VP8UnPacker \<Rightarrow> bool" where
  "buffer_invariant u = (frameBuffer u \<noteq> [] \<longrightarrow> building u)"

section \<open>Specification functions used by the claims\<close>

text \<open>The buffer read as one big-endian number: the first byte is the most significant.\<close>

definition be_value :: "byte list \<Rightarrow> nat" where
  "be_value buf = foldl (\<lambda>a b. 256 * a + unat b) 0 buf"

text \<open>A read that succeeds leaves the bytes of the buffer as they were.\<close>

definition keeps_buffer :: "'a reader \<Rightarrow> bool" where
  "keeps_buffer m = (\<forall>bs x bs'. m bs = Inr (x, bs') \<longrightarrow> buffer bs' = buffer bs)"

section \<open>Arithmetic of the bit packing\<close>

lemma or_push_add_nat:
  fixes a b :: nat
  assumes "a < 2 ^ n"
  shows "push_bit n b OR a = a + 2 ^ n * b"
proof -
  have "push_bit n b + a = push_bit n b OR a"
  proof (rule disjunctive_add)
    fix k
    show "\<not> bit (push_bit n b) k \<or> \<not> bit a k"
    proof (cases "k < n")
      case True then show ?thesis by (simp add: bit_push_bit_iff)
    next
      case False
      have "take_bit n a = a" using assms by (rule take_bit_nat_eq_self)
      then have "bit a k = bit (take_bit n a) k" by simp
      with False show ?thesis by (simp add: bit_take_bit_iff)
    qed
  qed
  then have "push_bit n b OR a = a + push_bit n b" by (simp add: add.commute)
  then show ?thesis by (simp add: push_bit_eq_mult mult.commute)
qed

lemma unat_byte_lt: "unat (b :: byte) < 256"
  using unsigned_less [of b] by simp

lemma unat_ucast_byte32: "unat (ucast (b :: byte) :: 32 word) = unat b"
  using unat_byte_lt [of b] by (simp add: unsigned_ucast_eq take_bit_nat_eq_self)

lemma pack3:
  fixes b0 b1 b2 :: byte
  shows "unat (push_bit 16 (ucast b2 :: 32 word) OR push_bit 8 (ucast b1) OR ucast b0)
     = unat b0 + 256 * unat b1 + 65536 * unat b2"
proof -
  have l0: "unat b0 < 2 ^ 8" and l1: "unat b1 < 2 ^ 8" and l2: "unat b2 < 2 ^ 8"
    using unat_byte_lt by simp_all
  have p8: "unat (push_bit 8 (ucast b1 :: 32 word)) = push_bit 8 (unat b1)"
    unfolding unsigned_push_bit_eq unat_ucast_byte32
    using l1 by (intro take_bit_nat_eq_self) (simp add: push_bit_eq_mult)
  have p16: "unat (push_bit 16 (ucast b2 :: 32 word)) = push_bit 16 (unat b2)"
    unfolding unsigned_push_bit_eq unat_ucast_byte32
    using l2 by (intro take_bit_nat_eq_self) (simp add: push_bit_eq_mult)
  have lo: "push_bit 8 (unat b1) OR unat b0 = unat b0 + 2 ^ 8 * unat b1"
    using l0 by (rule or_push_add_nat)
  have "unat b0 + 2 ^ 8 * unat b1 < 2 ^ 16" using l0 l1 by simp
  then have hi: "push_bit 16 (unat b2) OR (unat b0 + 2 ^ 8 * unat b1)
      = (unat b0 + 2 ^ 8 * unat b1) + 2 ^ 16 * unat b2"
    by (rule or_push_add_nat)
  have "unat (push_bit 16 (ucast b2 :: 32 word) OR push_bit 8 (ucast b1) OR ucast b0)
      = push_bit 16 (unat b2) OR (push_bit 8 (unat b1) OR unat b0)"
    unfolding unsigned_or_eq p8 p16 unat_ucast_byte32 by (simp only: or.assoc)
  also have "\<dots> = (unat b0 + 2 ^ 8 * unat b1) + 2 ^ 16 * unat b2"
    unfolding lo hi ..
  finally show ?thesis by simp
qed

lemma unat_and_mask: "unat ((w :: 'a::len word) AND mask n) = unat w mod 2 ^ n"
proof -
  have "unat (w AND mask n) = unat (take_bit n w)" by (simp only: take_bit_eq_mask)
  also have "\<dots> = take_bit n (unat w)" by (rule unsigned_take_bit_eq)
  also have "\<dots> = unat w mod 2 ^ n" by (rule take_bit_nat_def)
  finally show ?thesis .
qed

lemma and1: "unat ((w :: 32 word) AND 0x01) = unat w mod 2"
  using unat_and_mask [of w 1] by simp

lemma and7: "unat ((w :: 32 word) AND 0x07) = unat w mod 8"
  using unat_and_mask [of w 3] by (simp add: mask_numeral)

lemma and7ffff: "unat ((w :: 32 word) AND 0x7FFFF) = unat w mod 2 ^ 19"
  using unat_and_mask [of w 19] by (simp add: mask_numeral)

lemma and3f: "unat ((w :: byte) AND 0x3f) = unat w mod 64"
  using unat_and_mask [of w 6] by (simp add: mask_numeral)

lemma dropb: "unat (drop_bit n (w :: 'a::len word)) = unat w div 2 ^ n"
  by (simp add: unat_drop_bit_eq drop_bit_nat_def)


lemma unat_ucast_byte16: "unat (ucast (b :: byte) :: 16 word) = unat b"
  using unat_byte_lt [of b] by (simp add: unsigned_ucast_eq take_bit_nat_eq_self)

lemma low14:
  fixes a b :: nat
  assumes "a < 256"
  shows "(a + 256 * b) mod 16384 = a + 256 * (b mod 64)"
proof -
  define q r where "q = b div 64" and "r = b mod 64"
  have b: "b = 64 * q + r" and r: "r < 64" by (simp_all add: q_def r_def)
  have "a + 256 * b = (a + 256 * r) + 16384 * q" using b by simp
  then have "(a + 256 * b) mod 16384 = ((a + 256 * r) + 16384 * q) mod 16384" by (simp only:)
  also have "\<dots> = (a + 256 * r) mod 16384" by (rule mod_mult_self2)
  also have "\<dots> = a + 256 * r" using assms r by simp
  finally show ?thesis by (simp add: r_def)
qed

lemma pack2_14:
  fixes lo hi :: byte
  shows "unat (push_bit 8 (ucast (hi AND 0x3f) :: 16 word) OR ucast lo)
     = (unat lo + 256 * unat hi) mod 2 ^ 14"
proof -
  have l0: "unat lo < 2 ^ 8" using unat_byte_lt [of lo] by simp
  have h: "unat (hi AND 0x3f) = unat hi mod 64" by (rule and3f)
  have p8: "unat (push_bit 8 (ucast (hi AND 0x3f) :: 16 word)) = push_bit 8 (unat hi mod 64)"
    unfolding unsigned_push_bit_eq unat_ucast_byte16 h
    by (intro take_bit_nat_eq_self) (simp add: push_bit_eq_mult)
  have "unat (push_bit 8 (ucast (hi AND 0x3f) :: 16 word) OR ucast lo)
      = push_bit 8 (unat hi mod 64) OR unat lo"
    unfolding unsigned_or_eq p8 unat_ucast_byte16 ..
  also have "\<dots> = unat lo + 2 ^ 8 * (unat hi mod 64)"
    using l0 by (rule or_push_add_nat)
  also have "\<dots> = (unat lo + 256 * unat hi) mod 2 ^ 14"
    using unat_byte_lt [of lo] by (simp add: low14)
  finally show ?thesis .
qed

lemma take3_eq:
  "3 \<le> length xs \<Longrightarrow> (take 3 xs = [a, b, c]) = (xs ! 0 = a \<and> xs ! 1 = b \<and> xs ! 2 = c)"
proof -
  assume "3 \<le> length xs"
  then obtain x y z r where "xs = x # y # z # r"
    by (metis Suc_le_length_iff numeral_3_eq_3)
  then show ?thesis by simp
qed

section \<open>Claims about the VP8 header parser\<close>

text \<open>
  C6. For every input of at least 3 bytes, \<open>DecodeFrameTag\<close> packs bytes 0 to 2 into a
  24-bit integer \<open>v\<close> with byte 0 least significant and returns frame type = bit 0,
  version = bits 1 to 3, display = bit 4 and first-part size = bits 5 to 23 of \<open>v\<close>, so
  the first-part size is below \<open>2 ^ 19\<close>; for a shorter input it fails with
  \<open>InputTooShort\<close>. (Determinism is that of a HOL function: equal inputs give equal
  results.)
\<close>

theorem DecodeFrameTag_fields:
  "(length frame < 3 \<longrightarrow> DecodeFrameTag frame = Inl InputTooShort) \<and>
   (3 \<le> length frame \<longrightarrow>
      (\<exists>tag v. DecodeFrameTag frame = Inr tag \<and>
         v = unat (frame ! 0) + 256 * unat (frame ! 1) + 65536 * unat (frame ! 2) \<and>
         v < 2 ^ 24 \<and>
         unat (FrameType tag) = v mod 2 \<and>
         unat (Version tag) = (v div 2) mod 8 \<and>
         unat (Display tag) = (v div 16) mod 2 \<and>
         unat (FirstPartSize tag) = (v div 32) mod 2 ^ 19 \<and>
         unat (FirstPartSize tag) < 2 ^ 19))"
proof (intro conjI impI)
  assume "length frame < 3"
  then show "DecodeFrameTag frame = Inl InputTooShort" by (simp add: DecodeFrameTag_def)
next
  assume len: "3 \<le> length frame"
  let ?v = "unat (frame ! 0) + 256 * unat (frame ! 1) + 65536 * unat (frame ! 2)"
  let ?tmp = "frame_tag_word frame"
  have v: "unat ?tmp = ?v" unfolding frame_tag_word_def by (rule pack3)
  have bound: "?v < 2 ^ 24"
    using unat_byte_lt [of "frame ! 0"] unat_byte_lt [of "frame ! 1"] unat_byte_lt [of "frame ! 2"]
    by simp
  let ?tag = "\<lparr> FrameType = ?tmp AND 0x01, Version = drop_bit 1 ?tmp AND 0x07,
      Display = drop_bit 4 ?tmp AND 0x01, FirstPartSize = drop_bit 5 ?tmp AND 0x7FFFF \<rparr>"
  have d: "DecodeFrameTag frame = Inr ?tag"
    using len by (simp add: DecodeFrameTag_def Let_def)
  have f1: "unat (FrameType ?tag) = ?v mod 2" by (simp add: and1 v)
  have f2: "unat (Version ?tag) = (?v div 2) mod 8" by (simp add: and7 dropb v)
  have f3: "unat (Display ?tag) = (?v div 16) mod 2" by (simp add: and1 dropb v)
  have f4: "unat (FirstPartSize ?tag) = (?v div 32) mod 2 ^ 19" by (simp add: and7ffff dropb v)
  have f5: "unat (FirstPartSize ?tag) < 2 ^ 19" unfolding f4 by simp
  from d bound f1 f2 f3 f4 f5
  show "\<exists>tag v. DecodeFrameTag frame = Inr tag \<and>
         v = unat (frame ! 0) + 256 * unat (frame ! 1) + 65536 * unat (frame ! 2) \<and>
         v < 2 ^ 24 \<and>
         unat (FrameType tag) = v mod 2 \<and>
         unat (Version tag) = (v div 2) mod 8 \<and>
         unat (Display tag) = (v div 16) mod 2 \<and>
         unat (FirstPartSize tag) = (v div 32) mod 2 ^ 19 \<and>
         unat (FirstPartSize tag) < 2 ^ 19"
    by blast
qed


theorem DecodeFrameTag_fields_witness:
  "length ([] :: byte list) < 3 \<and> DecodeFrameTag [] = Inl InputTooShort \<and>
   3 \<le> length [0xb1, 0x02, 0x80 :: byte] \<and>
   (\<exists>tag. DecodeFrameTag [0xb1, 0x02, 0x80] = Inr tag \<and>
      unat (FrameType tag) = 1 \<and> unat (Version tag) = 0 \<and> unat (Display tag) = 1 \<and>
      unat (FirstPartSize tag) = 262165)"
  using DecodeFrameTag_fields [of "[]"] DecodeFrameTag_fields [of "[0xb1, 0x02, 0x80]"]
  by auto

lemma DecodeKeyFrameHead_bad_start:
  assumes "7 \<le> length frame" and "take 3 frame \<noteq> [0x9d, 0x01, 0x2a]"
  shows "DecodeKeyFrameHead frame = Inl InvalidStartCode"
proof -
  from assms(1) have "3 \<le> length frame" by simp
  from take3_eq [OF this] assms(2)
  have "frame ! 0 \<noteq> 0x9d \<or> frame ! 1 \<noteq> 0x01 \<or> frame ! 2 \<noteq> 0x2a" by blast
  with assms(1) show ?thesis by (simp add: DecodeKeyFrameHead_def)
qed

text \<open>
  C7. \<open>DecodeKeyFrameHead\<close> fails with \<open>InputTooShort\<close> on every input shorter than 7
  bytes, fails with \<open>InvalidStartCode\<close> on every input of at least 7 bytes whose first
  three bytes are not 9D 01 2A, and otherwise returns width = the low 14 bits of the
  little-endian 16-bit pair at offsets 3 and 4, horizontal scale = the top 2 bits of byte 4,
  and height and vertical scale likewise from offsets 5 and 6.
\<close>

theorem DecodeKeyFrameHead_fields:
  "(length frame < 7 \<longrightarrow> DecodeKeyFrameHead frame = Inl InputTooShort) \<and>
   (7 \<le> length frame \<and> take 3 frame \<noteq> [0x9d, 0x01, 0x2a] \<longrightarrow>
      DecodeKeyFrameHead frame = Inl InvalidStartCode) \<and>
   (7 \<le> length frame \<and> take 3 frame = [0x9d, 0x01, 0x2a] \<longrightarrow>
      (\<exists>head. DecodeKeyFrameHead frame = Inr head \<and>
         Width head = int ((unat (frame ! 3) + 256 * unat (frame ! 4)) mod 2 ^ 14) \<and>
         HorizScale head = int (unat (frame ! 4) div 2 ^ 6) \<and>
         Height head = int ((unat (frame ! 5) + 256 * unat (frame ! 6)) mod 2 ^ 14) \<and>
         VertScale head = int (unat (frame ! 6) div 2 ^ 6)))"
proof (intro conjI impI)
  assume "length frame < 7"
  then show "DecodeKeyFrameHead frame = Inl InputTooShort"
    by (simp add: DecodeKeyFrameHead_def)
next
  assume a: "7 \<le> length frame \<and> take 3 frame \<noteq> [0x9d, 0x01, 0x2a]"
  then show "DecodeKeyFrameHead frame = Inl InvalidStartCode"
    by (simp add: DecodeKeyFrameHead_bad_start)
next
  assume a: "7 \<le> length frame \<and> take 3 frame = [0x9d, 0x01, 0x2a]"
  then have "3 \<le> length frame" by simp
  from take3_eq [OF this] a
  have sc: "frame ! 0 = 0x9d \<and> frame ! 1 = 0x01 \<and> frame ! 2 = 0x2a" by blast
  let ?head = "\<lparr> Width = uint (push_bit 8 (ucast (frame ! 4 AND 0x3f) :: 16 word) OR ucast (frame ! 3)),
              Height = uint (push_bit 8 (ucast (frame ! 6 AND 0x3f) :: 16 word) OR ucast (frame ! 5)),
              HorizScale = uint (drop_bit 6 (frame ! 4)),
              VertScale = uint (drop_bit 6 (frame ! 6)) \<rparr>"
  have d: "DecodeKeyFrameHead frame = Inr ?head"
    using a sc by (simp add: DecodeKeyFrameHead_def)
  have w: "Width ?head = int ((unat (frame ! 3) + 256 * unat (frame ! 4)) mod 2 ^ 14)"
    by (simp only: VP8KeyFrameHead.simps uint_nat pack2_14)
  have h: "Height ?head = int ((unat (frame ! 5) + 256 * unat (frame ! 6)) mod 2 ^ 14)"
    by (simp only: VP8KeyFrameHead.simps uint_nat pack2_14)
  have hs: "HorizScale ?head = int (unat (frame ! 4) div 2 ^ 6)"
    by (simp only: VP8KeyFrameHead.simps uint_nat dropb)
  have vs: "VertScale ?head = int (unat (frame ! 6) div 2 ^ 6)"
    by (simp only: VP8KeyFrameHead.simps uint_nat dropb)
  from d w h hs vs
  show "\<exists>head. DecodeKeyFrameHead frame = Inr head \<and>
         Width head = int ((unat (frame ! 3) + 256 * unat (frame ! 4)) mod 2 ^ 14) \<and>
         HorizScale head = int (unat (frame ! 4) div 2 ^ 6) \<and>
         Height head = int ((unat (frame ! 5) + 256 * unat (frame ! 6)) mod 2 ^ 14) \<and>
         VertScale head = int (unat (frame ! 6) div 2 ^ 6)"
    by blast
qed

theorem DecodeKeyFrameHead_fields_witness:
  "length [0x9d, 0x01 :: byte] < 7 \<and> DecodeKeyFrameHead [0x9d, 0x01] = Inl InputTooShort \<and>
   (7 \<le> length [0x9d, 0x01, 0x2b, 0, 0, 0, 0 :: byte] \<and>
      take 3 [0x9d, 0x01, 0x2b, 0, 0, 0, 0 :: byte] \<noteq> [0x9d, 0x01, 0x2a]) \<and>
   DecodeKeyFrameHead [0x9d, 0x01, 0x2b, 0, 0, 0, 0] = Inl InvalidStartCode \<and>
   (7 \<le> length [0x9d, 0x01, 0x2a, 0x80, 0x42, 0xe0, 0x81 :: byte] \<and>
      take 3 [0x9d, 0x01, 0x2a, 0x80, 0x42, 0xe0, 0x81 :: byte] = [0x9d, 0x01, 0x2a]) \<and>
   (\<exists>head. DecodeKeyFrameHead [0x9d, 0x01, 0x2a, 0x80, 0x42, 0xe0, 0x81] = Inr head \<and>
      Width head = 640 \<and> HorizScale head = 1 \<and> Height head = 480 \<and> VertScale head = 2)"
  using DecodeKeyFrameHead_fields [of "[0x9d, 0x01]"]
    DecodeKeyFrameHead_fields [of "[0x9d, 0x01, 0x2b, 0, 0, 0, 0]"]
    DecodeKeyFrameHead_fields [of "[0x9d, 0x01, 0x2a, 0x80, 0x42, 0xe0, 0x81]"]
  by simp

lemma IsKeyFrame_length: "IsKeyFrame frame \<Longrightarrow> 3 \<le> length frame"
  by (simp add: IsKeyFrame_def DecodeFrameTag_def split: if_splits)

lemma IsKeyFrame_eq: "IsKeyFrame frame = IsVP8KeyFrame frame"
  by (simp add: IsKeyFrame_def IsVP8KeyFrame_def)

text \<open>
  C2, as amended. \<open>GetResloution\<close> (the copy of the parser that tests for a key frame)
  fails with \<open>NotKeyFrame\<close> on every frame on which \<open>IsKeyFrame\<close> is false; on a key
  frame of at least 10 bytes whose bytes 3 to 5 are not 9D 01 2A it fails with
  \<open>InvalidStartCode\<close>; on a key frame shorter than 10 bytes the length test of
  \<open>DecodeKeyFrameHead\<close> comes first and it fails with \<open>InputTooShort\<close>.
  \<open>GetVP8Resloution\<close> of go-codec/vp8.go makes no key-frame test: it never fails with
  \<open>NotKeyFrame\<close>, and on key frames it returns what \<open>GetResloution\<close> returns.
\<close>

theorem VP8_GetResloution_errors:
  "(\<not> IsKeyFrame frame \<longrightarrow> GetResloution frame = Inl NotKeyFrame) \<and>
   (IsKeyFrame frame \<and> 10 \<le> length frame \<and> take 3 (drop 3 frame) \<noteq> [0x9d, 0x01, 0x2a] \<longrightarrow>
      GetResloution frame = Inl InvalidStartCode) \<and>
   (IsKeyFrame frame \<and> length frame < 10 \<longrightarrow> GetResloution frame = Inl InputTooShort) \<and>
   (IsVP8KeyFrame frame \<longrightarrow> GetVP8Resloution frame = GetResloution frame) \<and>
   GetVP8Resloution frame \<noteq> Inl NotKeyFrame"
proof (intro conjI impI)
  assume "\<not> IsKeyFrame frame"
  then show "GetResloution frame = Inl NotKeyFrame" by (simp add: GetResloution_def)
next
  assume a: "IsKeyFrame frame \<and> 10 \<le> length frame \<and> take 3 (drop 3 frame) \<noteq> [0x9d, 0x01, 0x2a]"
  then have "7 \<le> length (drop 3 frame) \<and> take 3 (drop 3 frame) \<noteq> [0x9d, 0x01, 0x2a]" by auto
  then have "DecodeKeyFrameHead (drop 3 frame) = Inl InvalidStartCode"
    by (simp add: DecodeKeyFrameHead_bad_start)
  with a show "GetResloution frame = Inl InvalidStartCode" by (simp add: GetResloution_def)
next
  assume a: "IsKeyFrame frame \<and> length frame < 10"
  then have "length (drop 3 frame) < 7" using IsKeyFrame_length [of frame] by auto
  then have "DecodeKeyFrameHead (drop 3 frame) = Inl InputTooShort"
    by (simp add: DecodeKeyFrameHead_def)
  with a show "GetResloution frame = Inl InputTooShort" by (simp add: GetResloution_def)
next
  assume k: "IsVP8KeyFrame frame"
  then have "IsKeyFrame frame" by (simp add: IsKeyFrame_eq)
  then show "GetVP8Resloution frame = GetResloution frame"
    using IsKeyFrame_length [of frame] by (simp add: GetVP8Resloution_def GetResloution_def)
next
  show "GetVP8Resloution frame \<noteq> Inl NotKeyFrame"
    by (auto simp: GetVP8Resloution_def DecodeKeyFrameHead_def split: sum.splits if_splits)
qed

theorem VP8_GetResloution_errors_witness:
  "\<not> IsKeyFrame [0x01, 0, 0, 0x9d, 0x01, 0x2a, 0x80, 0x02, 0xe0, 0x01] \<and>
   GetResloution [0x01, 0, 0, 0x9d, 0x01, 0x2a, 0x80, 0x02, 0xe0, 0x01] = Inl NotKeyFrame \<and>
   (IsKeyFrame [0, 0, 0, 0x9d, 0x01, 0x2b, 0x80, 0x02, 0xe0, 0x01] \<and>
      10 \<le> length [0, 0, 0, 0x9d, 0x01, 0x2b, 0x80, 0x02, 0xe0, 0x01 :: byte] \<and>
      take 3 (drop 3 [0, 0, 0, 0x9d, 0x01, 0x2b, 0x80, 0x02, 0xe0, 0x01 :: byte]) \<noteq> [0x9d, 0x01, 0x2a]) \<and>
   GetResloution [0, 0, 0, 0x9d, 0x01, 0x2b, 0x80, 0x02, 0xe0, 0x01] = Inl InvalidStartCode \<and>
   (IsKeyFrame [0, 0, 0, 0x9d, 0x01, 0x2a] \<and> length [0, 0, 0, 0x9d, 0x01, 0x2a :: byte] < 10) \<and>
   GetResloution [0, 0, 0, 0x9d, 0x01, 0x2a] = Inl InputTooShort \<and>
   IsVP8KeyFrame [0, 0, 0, 0x9d, 0x01, 0x2a, 0x80, 0x02, 0xe0, 0x01] \<and>
   GetVP8Resloution [0, 0, 0, 0x9d, 0x01, 0x2a, 0x80, 0x02, 0xe0, 0x01]
     = GetResloution [0, 0, 0, 0x9d, 0x01, 0x2a, 0x80, 0x02, 0xe0, 0x01]"
proof -
  have k1: "\<not> IsKeyFrame [0x01, 0, 0, 0x9d, 0x01, 0x2a, 0x80, 0x02, 0xe0, 0x01]"
    by (simp add: IsKeyFrame_def DecodeFrameTag_def frame_tag_word_def)
  have k2: "IsKeyFrame [0, 0, 0, 0x9d, 0x01, 0x2b, 0x80, 0x02, 0xe0, 0x01]"
    by (simp add: IsKeyFrame_def DecodeFrameTag_def frame_tag_word_def)
  have k3: "IsKeyFrame [0, 0, 0, 0x9d, 0x01, 0x2a]"
    by (simp add: IsKeyFrame_def DecodeFrameTag_def frame_tag_word_def)
  have k4: "IsVP8KeyFrame [0, 0, 0, 0x9d, 0x01, 0x2a, 0x80, 0x02, 0xe0, 0x01]"
    by (simp add: IsVP8KeyFrame_def DecodeFrameTag_def frame_tag_word_def)
  show ?thesis
    using k1 k2 k3 k4
      VP8_GetResloution_errors [of "[0x01, 0, 0, 0x9d, 0x01, 0x2a, 0x80, 0x02, 0xe0, 0x01]"]
      VP8_GetResloution_errors [of "[0, 0, 0, 0x9d, 0x01, 0x2b, 0x80, 0x02, 0xe0, 0x01]"]
      VP8_GetResloution_errors [of "[0, 0, 0, 0x9d, 0x01, 0x2a]"]
      VP8_GetResloution_errors [of "[0, 0, 0, 0x9d, 0x01, 0x2a, 0x80, 0x02, 0xe0, 0x01]"]
    by simp
qed

text \<open>
  C2 as stated fails on the code. An inter frame with a well-formed size header gets a
  resolution from \<open>GetVP8Resloution\<close>, not \<open>NotKeyFrame\<close>; and the six-byte key frame
  00 00 00 01 02 03, whose three bytes after the tag are not the start code, fails with
  \<open>InputTooShort\<close> in both copies, not \<open>InvalidStartCode\<close>.
\<close>

theorem VP8_GetResloution_counterexample:
  "\<not> IsVP8KeyFrame [0x01, 0, 0, 0x9d, 0x01, 0x2a, 0x80, 0x02, 0xe0, 0x01] \<and>
   GetVP8Resloution [0x01, 0, 0, 0x9d, 0x01, 0x2a, 0x80, 0x02, 0xe0, 0x01] = Inr (640, 480) \<and>
   IsKeyFrame [0, 0, 0, 1, 2, 3] \<and> IsVP8KeyFrame [0, 0, 0, 1, 2, 3] \<and>
   take 3 (drop 3 [0, 0, 0, 1, 2, 3 :: byte]) \<noteq> [0x9d, 0x01, 0x2a] \<and>
   GetResloution [0, 0, 0, 1, 2, 3] = Inl InputTooShort \<and>
   GetVP8Resloution [0, 0, 0, 1, 2, 3] = Inl InputTooShort"
  by (simp add: IsVP8KeyFrame_def IsKeyFrame_def DecodeFrameTag_def frame_tag_word_def
      GetVP8Resloution_def GetResloution_def DecodeKeyFrameHead_def)

section \<open>Claims about the depacketizer\<close>

lemma byte_flag: "(0 < ((b :: byte) AND 2 ^ n)) = bit b n"
  by (simp add: word_gt_0 and_exp_eq_0_iff_not_bit)

lemma flag80: "(0 < ((b :: byte) AND 0x80)) = bit b 7" using byte_flag [of b 7] by simp
lemma flag40: "(0 < ((b :: byte) AND 0x40)) = bit b 6" using byte_flag [of b 6] by simp
lemma flag20: "(0 < ((b :: byte) AND 0x20)) = bit b 5" using byte_flag [of b 5] by simp
lemma flag10: "(0 < ((b :: byte) AND 0x10)) = bit b 4" using byte_flag [of b 4] by simp

lemmas flags = flag80 flag40 flag20 flag10

lemma header_length_errors:
  "payload_header_length payload = Inl e \<Longrightarrow> e = ShortExtendedHeader \<or> e = ShortPictureId"
  by (auto simp: payload_header_length_def Let_def split: if_splits sum.splits)

lemma header_length_spec:
  assumes "payload \<noteq> []" and "payload_header_length payload = Inr h"
  shows "spec_descriptor_length payload = h"
  using assms
  by (auto simp: payload_header_length_def spec_descriptor_length_def byte_or_zero_def flags Let_def
      split: if_splits sum.splits)

lemma header_length_error_truncated:
  assumes "payload \<noteq> []" and "payload_header_length payload = Inl e"
  shows "length payload < spec_descriptor_length payload"
  using assms
  by (auto simp: payload_header_length_def spec_descriptor_length_def byte_or_zero_def flags Let_def
      split: if_splits sum.splits)


text \<open>
  C1, as amended. For every packet with a non-empty payload whose descriptor passes the two
  guards of the code (the extension byte is there when the X bit is set, the picture-ID
  byte is there when the I bit is set) and whose payload is shorter than the descriptor
  length so computed, \<open>UnPack\<close> returns success with the lost flag set, appends none of the
  packet's bytes, and every frame it hands to the frame callback in that call carries
  lost = true. A payload cut before the extension byte or before the picture-ID byte is
  shorter than its descriptor too, and is rejected with the error of the guard it hits
  (short extended header, short picture id), again with none of its bytes appended.
\<close>

theorem UnPack_truncated_descriptor:
  assumes "Payload pkg \<noteq> []" and "UnPack u (Inr pkg) = (r, u', evs)"
  shows "(\<forall>h. payload_header_length (Payload pkg) = Inr h \<and> length (Payload pkg) < h \<longrightarrow>
            spec_descriptor_length (Payload pkg) = h \<and>
            r = None \<and> lost u' \<and>
            frameBuffer u' =
              (if building u \<and> Timestamp pkg = timestamp u \<and> Marker pkg \<noteq> 1
               then frameBuffer u else []) \<and>
            (\<forall>b t l. FrameOut b t l \<in> set evs \<longrightarrow> l)) \<and>
         (\<forall>e. payload_header_length (Payload pkg) = Inl e \<longrightarrow>
            length (Payload pkg) < spec_descriptor_length (Payload pkg) \<and>
            (e = ShortExtendedHeader \<or> e = ShortPictureId) \<and>
            r = Some e \<and>
            frameBuffer u' =
              (if building u \<and> Timestamp pkg = timestamp u then frameBuffer u else []))"
proof (intro conjI allI impI)
  fix h
  assume h: "payload_header_length (Payload pkg) = Inr h \<and> length (Payload pkg) < h"
  show "spec_descriptor_length (Payload pkg) = h"
    using assms(1) h by (simp add: header_length_spec)
  show "r = None"
    using assms h by (auto simp: UnPack_def Let_def split: prod.splits if_splits)
  show "lost u'"
    using assms h by (auto simp: UnPack_def Let_def split: prod.splits if_splits)
  show "frameBuffer u' =
          (if building u \<and> Timestamp pkg = timestamp u \<and> Marker pkg \<noteq> 1
           then frameBuffer u else [])"
    using assms h
    by (auto simp: UnPack_def track_group_def Let_def split: prod.splits if_splits)
  show "\<And>b t l. FrameOut b t l \<in> set evs \<Longrightarrow> l"
    using assms h
    by (auto simp: UnPack_def track_group_def Let_def split: prod.splits if_splits)
next
  fix e
  assume e: "payload_header_length (Payload pkg) = Inl e"
  show "length (Payload pkg) < spec_descriptor_length (Payload pkg)"
    using assms(1) e by (rule header_length_error_truncated)
  show "e = ShortExtendedHeader \<or> e = ShortPictureId"
    using e by (rule header_length_errors)
  show "r = Some e"
    using assms e by (auto simp: UnPack_def Let_def split: prod.splits if_splits)
  show "frameBuffer u' =
          (if building u \<and> Timestamp pkg = timestamp u then frameBuffer u else [])"
    using assms e
    by (auto simp: UnPack_def track_group_def Let_def split: prod.splits if_splits)
qed


lemma UnPack_nonempty:
  assumes "Payload pkg \<noteq> []"
  shows "UnPack u (Inr pkg) =
     (case payload_header_length (Payload pkg) of
        Inl err \<Rightarrow> (Some err, fst (track_group u pkg),
                    (if onRtp u then [RtpSeen pkg] else []) @ snd (track_group u pkg))
      | Inr h \<Rightarrow>
          let u1 = fst (track_group u pkg);
              u2 = (if length (Payload pkg) < h then u1\<lparr> lost := True \<rparr>
                    else u1\<lparr> frameBuffer := frameBuffer u1 @ drop h (Payload pkg) \<rparr>);
              evs = (if onRtp u then [RtpSeen pkg] else []) @ snd (track_group u pkg)
          in if Marker pkg = 1 then
               (None, u2\<lparr> building := False, frameBuffer := [] \<rparr>,
                evs @ (if onFrame u2 then [FrameOut (frameBuffer u2) (timestamp u2) (lost u2)] else []))
             else (None, u2, evs))"
  using assms by (simp add: UnPack_def Let_def split: prod.splits sum.splits)

text \<open>
  C3, as amended. When \<open>UnPack\<close> returns an error because the packet did not decode or its
  payload is empty, the state is exactly as before the call and no callback has run. The
  only other errors are the two descriptor errors, and they are returned after the group
  tracking: the raw-packet observer has seen the packet, an unfinished previous group has
  been flushed and its buffer cleared, building is true, the timestamp and the last
  sequence number are the packet's, and lost is as the continuity test left it; no byte of
  the failing packet is in the buffer.
\<close>

theorem UnPack_error_state:
  assumes "UnPack u d = (Some e, u', evs)"
  shows "(d = Inl e \<and> u' = u \<and> evs = []) \<or>
         (\<exists>pkg. d = Inr pkg \<and> Payload pkg = [] \<and> e = EmptyPayload \<and> u' = u \<and> evs = []) \<or>
         (\<exists>pkg. d = Inr pkg \<and> Payload pkg \<noteq> [] \<and>
            payload_header_length (Payload pkg) = Inl e \<and>
            (e = ShortExtendedHeader \<or> e = ShortPictureId) \<and>
            u' = (if building u \<and> Timestamp pkg = timestamp u
                  then u\<lparr> lost := (lost u \<or> lastSequence u + 1 \<noteq> SequenceNumber pkg),
                         lastSequence := SequenceNumber pkg \<rparr>
                  else u\<lparr> building := True, timestamp := Timestamp pkg,
                         lastSequence := SequenceNumber pkg, frameBuffer := [], lost := False \<rparr>) \<and>
            evs = (if onRtp u then [RtpSeen pkg] else []) @
                  (if building u \<and> Timestamp pkg \<noteq> timestamp u \<and> frameBuffer u \<noteq> [] \<and> onFrame u
                   then [FrameOut (frameBuffer u) (timestamp u) True] else []))"
proof (cases d)
  case (Inl err)
  with assms show ?thesis by (simp add: UnPack_def)
next
  case (Inr pkg)
  show ?thesis
  proof (cases "Payload pkg = []")
    case True
    with assms Inr show ?thesis by (simp add: UnPack_def)
  next
    case False
    from assms Inr UnPack_nonempty [OF False, of u]
    have pl: "payload_header_length (Payload pkg) = Inl e"
      and u': "u' = fst (track_group u pkg)"
      and evs: "evs = (if onRtp u then [RtpSeen pkg] else []) @ snd (track_group u pkg)"
      by (auto simp: Let_def split: sum.splits if_splits)
    have "u' = (if building u \<and> Timestamp pkg = timestamp u
                  then u\<lparr> lost := (lost u \<or> lastSequence u + 1 \<noteq> SequenceNumber pkg),
                         lastSequence := SequenceNumber pkg \<rparr>
                  else u\<lparr> building := True, timestamp := Timestamp pkg,
                         lastSequence := SequenceNumber pkg, frameBuffer := [], lost := False \<rparr>)"
      unfolding u' by (auto simp: track_group_def)
    moreover have "evs = (if onRtp u then [RtpSeen pkg] else []) @
                  (if building u \<and> Timestamp pkg \<noteq> timestamp u \<and> frameBuffer u \<noteq> [] \<and> onFrame u
                   then [FrameOut (frameBuffer u) (timestamp u) True] else [])"
      unfolding evs by (auto simp: track_group_def)
    ultimately show ?thesis
      using Inr False pl header_length_errors [OF pl] by blast
  qed
qed

text \<open>
  C4. For every packet (one that passes the empty-payload test, with the frame callback
  installed) that arrives with a timestamp different from the current one while the
  depacketizer is building with a non-empty buffer: the first frame handed to the frame
  callback is the previous group's buffer, under the previous timestamp, with lost = true,
  and the buffer is cleared before the new group accumulates: after the call the timestamp
  is the packet's and the buffer holds nothing but this packet's bytes after its descriptor
  (handed on at once, under the new timestamp, when the packet carries the marker).
\<close>

theorem UnPack_flushes_previous_group:
  assumes "Payload pkg \<noteq> []" and "building u" and "frameBuffer u \<noteq> []"
    and "Timestamp pkg \<noteq> timestamp u" and "onFrame u"
    and "UnPack u (Inr pkg) = (r, u', evs)"
  shows "\<exists>rest. evs = (if onRtp u then [RtpSeen pkg] else [])
                    @ FrameOut (frameBuffer u) (timestamp u) True # rest \<and>
           timestamp u' = Timestamp pkg \<and>
           (case payload_header_length (Payload pkg) of
              Inl e \<Rightarrow> r = Some e \<and> rest = [] \<and> frameBuffer u' = [] \<and> building u'
            | Inr h \<Rightarrow> r = None \<and>
                (if Marker pkg = 1
                 then rest = [FrameOut (drop h (Payload pkg)) (Timestamp pkg) (length (Payload pkg) < h)]
                      \<and> frameBuffer u' = [] \<and> \<not> building u'
                 else rest = [] \<and> frameBuffer u' = drop h (Payload pkg) \<and> building u'))"
proof -
  have tg: "track_group u pkg =
      (u\<lparr> building := True, timestamp := Timestamp pkg, lastSequence := SequenceNumber pkg,
          frameBuffer := [], lost := False \<rparr>, [FrameOut (frameBuffer u) (timestamp u) True])"
    using assms(2-5) by (simp add: track_group_def)
  show ?thesis
  proof (cases "payload_header_length (Payload pkg)")
    case (Inl e)
    with assms(6) UnPack_nonempty [OF assms(1), of u] tg show ?thesis by auto
  next
    case (Inr h)
    with assms(5,6) UnPack_nonempty [OF assms(1), of u] tg show ?thesis
      by (cases "Marker pkg = 1"; cases "length (Payload pkg) < h"; cases "onRtp u")
        (auto simp: Let_def)
  qed
qed

text \<open>
  C9. The buffer is non-empty only while building: this holds of the initial state and is
  preserved by every call of \<open>UnPack\<close>, whatever the packet (decoded or not) and whatever
  the call returns.
\<close>

theorem UnPack_preserves_buffer_invariant:
  "buffer_invariant NewVP8UnPacker \<and>
   (buffer_invariant u \<longrightarrow> buffer_invariant (fst (snd (UnPack u d))))"
proof (intro conjI impI)
  show "buffer_invariant NewVP8UnPacker"
    by (simp add: buffer_invariant_def NewVP8UnPacker_def)
next
  assume inv: "buffer_invariant u"
  show "buffer_invariant (fst (snd (UnPack u d)))"
  proof (cases d)
    case (Inl err)
    with inv show ?thesis by (simp add: UnPack_def)
  next
    case (Inr pkg)
    show ?thesis
    proof (cases "Payload pkg = []")
      case True
      with inv Inr show ?thesis by (simp add: UnPack_def)
    next
      case False
      have b: "building (fst (track_group u pkg))"
        by (simp add: track_group_def)
      show ?thesis
        unfolding Inr UnPack_nonempty [OF False]
        using b by (auto simp: buffer_invariant_def Let_def split: sum.splits)
    qed
  qed
qed


lemma seq_succ_unat:
  "((a :: 16 word) + 1 \<noteq> b) = (unat b \<noteq> (unat a + 1) mod 2 ^ 16)"
proof -
  have "unat (a + 1) = (unat a + 1) mod 2 ^ 16"
    by (simp add: unat_word_ariths)
  then show ?thesis by (metis word_unat_eq_iff)
qed

lemmas unpack_eval = UnPack_def track_group_def payload_header_length_def NewVP8UnPacker_def Let_def

text \<open>
  C8. For every packet (one that passes the empty-payload test) that continues the current
  group (same timestamp, depacketizer building): if its sequence number is not the last one
  plus 1 modulo \<open>2 ^ 16\<close>, the lost flag is true after the call and every frame handed on in
  that call carries lost = true. In particular the same-timestamp packets 10 then 12, the
  second with the marker, give one frame with lost = true, and the pair 65535 then 0 gives
  one frame with lost = false.
\<close>

theorem UnPack_sequence_gap:
  "(Payload pkg \<noteq> [] \<and> building u \<and> Timestamp pkg = timestamp u \<and>
      unat (SequenceNumber pkg) \<noteq> (unat (lastSequence u) + 1) mod 2 ^ 16 \<and>
      UnPack u (Inr pkg) = (r, u', evs)
    \<longrightarrow> lost u' \<and> (\<forall>b t l. FrameOut b t l \<in> set evs \<longrightarrow> l) \<and>
        (r = None \<and> Marker pkg = 1 \<and> onFrame u \<longrightarrow>
           (\<exists>b. evs = (if onRtp u then [RtpSeen pkg] else []) @ [FrameOut b (timestamp u) True]))) \<and>
   snd (snd (UnPack
      (fst (snd (UnPack (NewVP8UnPacker\<lparr> onFrame := True \<rparr>)
         (Inr \<lparr> SequenceNumber = 10, Timestamp = 1000, Marker = 0, Payload = [0x00, 0xAA] \<rparr>))))
      (Inr \<lparr> SequenceNumber = 12, Timestamp = 1000, Marker = 1, Payload = [0x00, 0xBB] \<rparr>)))
     = [FrameOut [0xAA, 0xBB] 1000 True] \<and>
   snd (snd (UnPack
      (fst (snd (UnPack (NewVP8UnPacker\<lparr> onFrame := True \<rparr>)
         (Inr \<lparr> SequenceNumber = 65535, Timestamp = 1000, Marker = 0, Payload = [0x00, 0xAA] \<rparr>))))
      (Inr \<lparr> SequenceNumber = 0, Timestamp = 1000, Marker = 1, Payload = [0x00, 0xBB] \<rparr>)))
     = [FrameOut [0xAA, 0xBB] 1000 False]"
proof (intro conjI impI)
  assume a: "Payload pkg \<noteq> [] \<and> building u \<and> Timestamp pkg = timestamp u \<and>
      unat (SequenceNumber pkg) \<noteq> (unat (lastSequence u) + 1) mod 2 ^ 16 \<and>
      UnPack u (Inr pkg) = (r, u', evs)"
  then have gap: "lastSequence u + 1 \<noteq> SequenceNumber pkg" by (simp add: seq_succ_unat)
  have tg: "track_group u pkg = (u\<lparr> lost := True, lastSequence := SequenceNumber pkg \<rparr>, [])"
    using a gap by (simp add: track_group_def)
  from a have ne: "Payload pkg \<noteq> []" and run: "UnPack u (Inr pkg) = (r, u', evs)" by simp_all
  note eq = run [unfolded UnPack_nonempty [OF ne] tg]
  show "lost u'"
    using eq by (auto simp: Let_def split: sum.splits if_splits)
  show "\<forall>b t l. FrameOut b t l \<in> set evs \<longrightarrow> l"
    using eq by (auto simp: Let_def split: sum.splits if_splits)
  show "\<exists>b. evs = (if onRtp u then [RtpSeen pkg] else []) @ [FrameOut b (timestamp u) True]"
    if "r = None \<and> Marker pkg = 1 \<and> onFrame u"
    using eq that by (auto simp: Let_def split: sum.splits if_splits)
next
  show "snd (snd (UnPack
      (fst (snd (UnPack (NewVP8UnPacker\<lparr> onFrame := True \<rparr>)
         (Inr \<lparr> SequenceNumber = 10, Timestamp = 1000, Marker = 0, Payload = [0x00, 0xAA] \<rparr>))))
      (Inr \<lparr> SequenceNumber = 12, Timestamp = 1000, Marker = 1, Payload = [0x00, 0xBB] \<rparr>)))
     = [FrameOut [0xAA, 0xBB] 1000 True]"
    by (simp add: unpack_eval)
next
  show "snd (snd (UnPack
      (fst (snd (UnPack (NewVP8UnPacker\<lparr> onFrame := True \<rparr>)
         (Inr \<lparr> SequenceNumber = 65535, Timestamp = 1000, Marker = 0, Payload = [0x00, 0xAA] \<rparr>))))
      (Inr \<lparr> SequenceNumber = 0, Timestamp = 1000, Marker = 1, Payload = [0x00, 0xBB] \<rparr>)))
     = [FrameOut [0xAA, 0xBB] 1000 False]"
    by (simp add: unpack_eval)
qed


text \<open>
  C1 as stated fails on the code: the one-byte payload 80 announces an extension byte it
  does not have, so it is shorter than its descriptor, and \<open>UnPack\<close> returns the
  short-extended-header error with the lost flag still false.
\<close>

theorem UnPack_truncated_descriptor_counterexample:
  "length [0x80 :: byte] < spec_descriptor_length [0x80] \<and>
   UnPack NewVP8UnPacker
      (Inr \<lparr> SequenceNumber = 1, Timestamp = 1, Marker = 0, Payload = [0x80] \<rparr>)
    = (Some ShortExtendedHeader,
       \<lparr> onRtp = False, onFrame = False, frameBuffer = [], timestamp = 1, lastSequence = 1,
         lost = False, building = True \<rparr>, [])"
  by (simp add: unpack_eval spec_descriptor_length_def byte_or_zero_def)

theorem UnPack_truncated_descriptor_witness:
  "Payload \<lparr> SequenceNumber = 1, Timestamp = 1, Marker = 1, Payload = [0x80, 0x40] \<rparr> \<noteq> [] \<and>
   payload_header_length [0x80, 0x40] = Inr 3 \<and> length [0x80, 0x40 :: byte] < 3 \<and>
   spec_descriptor_length [0x80, 0x40] = 3 \<and>
   (\<exists>u'. UnPack (NewVP8UnPacker\<lparr> onFrame := True \<rparr>)
            (Inr \<lparr> SequenceNumber = 1, Timestamp = 1, Marker = 1, Payload = [0x80, 0x40] \<rparr>)
          = (None, u', [FrameOut [] 1 True]) \<and> lost u' \<and> frameBuffer u' = []) \<and>
   payload_header_length [0x80, 0x80] = Inl ShortPictureId \<and>
   length [0x80, 0x80 :: byte] < spec_descriptor_length [0x80, 0x80] \<and>
   fst (UnPack NewVP8UnPacker
          (Inr \<lparr> SequenceNumber = 1, Timestamp = 1, Marker = 1, Payload = [0x80, 0x80] \<rparr>))
     = Some ShortPictureId"
proof -
  let ?pA = "\<lparr> SequenceNumber = 1, Timestamp = 1, Marker = 1, Payload = [0x80, 0x40] \<rparr>"
  let ?pB = "\<lparr> SequenceNumber = 1, Timestamp = 1, Marker = 1, Payload = [0x80, 0x80] \<rparr>"
  let ?u = "NewVP8UnPacker\<lparr> onFrame := True \<rparr>"
  have neA: "Payload ?pA \<noteq> []" and neB: "Payload ?pB \<noteq> []" by simp_all
  have hA: "payload_header_length (Payload ?pA) = Inr 3 \<and> length (Payload ?pA) < 3"
    by (simp add: payload_header_length_def)
  have hB: "payload_header_length (Payload ?pB) = Inl ShortPictureId"
    by (simp add: payload_header_length_def)
  obtain rA uA eA where runA: "UnPack ?u (Inr ?pA) = (rA, uA, eA)" by (rule prod_cases3)
  obtain rB uB eB where runB: "UnPack NewVP8UnPacker (Inr ?pB) = (rB, uB, eB)" by (rule prod_cases3)
  have evA: "eA = [FrameOut [] 1 True]"
    using runA by (simp add: unpack_eval)
  from UnPack_truncated_descriptor [OF neA runA] hA
  have A: "spec_descriptor_length (Payload ?pA) = 3 \<and> rA = None \<and> lost uA \<and> frameBuffer uA = []"
    by (simp add: NewVP8UnPacker_def)
  from UnPack_truncated_descriptor [OF neB runB] hB
  have B: "length (Payload ?pB) < spec_descriptor_length (Payload ?pB) \<and> rB = Some ShortPictureId"
    by simp
  from A B evA runA runB hA hB show ?thesis by simp
qed

text \<open>
  C3 as stated fails on the code. After one packet of timestamp 5 the depacketizer is
  building with the bytes 1 2 3; a packet of timestamp 6 with the payload 80 is then
  rejected with the short-extended-header error, yet the old group has been flushed, the
  buffer is empty, and the timestamp and sequence number are those of the rejected packet.
\<close>

theorem UnPack_error_state_counterexample:
  "fst (snd (UnPack (NewVP8UnPacker\<lparr> onFrame := True \<rparr>)
      (Inr \<lparr> SequenceNumber = 9, Timestamp = 5, Marker = 0, Payload = [0x00, 1, 2, 3] \<rparr>)))
    = \<lparr> onRtp = False, onFrame = True, frameBuffer = [1, 2, 3], timestamp = 5, lastSequence = 9,
        lost = False, building = True \<rparr> \<and>
   UnPack \<lparr> onRtp = False, onFrame = True, frameBuffer = [1, 2, 3], timestamp = 5,
            lastSequence = 9, lost = False, building = True \<rparr>
      (Inr \<lparr> SequenceNumber = 10, Timestamp = 6, Marker = 0, Payload = [0x80] \<rparr>)
    = (Some ShortExtendedHeader,
       \<lparr> onRtp = False, onFrame = True, frameBuffer = [], timestamp = 6, lastSequence = 10,
         lost = False, building = True \<rparr>,
       [FrameOut [1, 2, 3] 5 True])"
  by (simp add: unpack_eval)

theorem UnPack_error_state_witness:
  "UnPack \<lparr> onRtp = True, onFrame = True, frameBuffer = [1, 2, 3], timestamp = 5,
            lastSequence = 9, lost = False, building = True \<rparr>
      (Inr \<lparr> SequenceNumber = 10, Timestamp = 5, Marker = 0, Payload = [] \<rparr>)
    = (Some EmptyPayload,
       \<lparr> onRtp = True, onFrame = True, frameBuffer = [1, 2, 3], timestamp = 5,
         lastSequence = 9, lost = False, building = True \<rparr>, []) \<and>
   (\<exists>u' evs. UnPack \<lparr> onRtp = True, onFrame = True, frameBuffer = [1, 2, 3], timestamp = 5,
            lastSequence = 9, lost = False, building = True \<rparr>
      (Inr \<lparr> SequenceNumber = 11, Timestamp = 5, Marker = 0, Payload = [0x80] \<rparr>)
    = (Some ShortExtendedHeader, u', evs) \<and>
     u' = \<lparr> onRtp = True, onFrame = True, frameBuffer = [1, 2, 3], timestamp = 5,
         lastSequence = 11, lost = True, building = True \<rparr> \<and>
     evs = [RtpSeen \<lparr> SequenceNumber = 11, Timestamp = 5, Marker = 0, Payload = [0x80] \<rparr>])"
proof -
  let ?u = "\<lparr> onRtp = True, onFrame = True, frameBuffer = [1, 2, 3], timestamp = 5,
            lastSequence = 9, lost = False, building = True \<rparr>"
  let ?pE = "\<lparr> SequenceNumber = 10, Timestamp = 5, Marker = 0, Payload = [] \<rparr>"
  let ?pS = "\<lparr> SequenceNumber = 11, Timestamp = 5, Marker = 0, Payload = [0x80] \<rparr>"
  obtain u1 e1 where r1: "UnPack ?u (Inr ?pE) = (Some EmptyPayload, u1, e1)"
    by (simp add: UnPack_def)
  obtain u2 e2 where r2: "UnPack ?u (Inr ?pS) = (Some ShortExtendedHeader, u2, e2)"
    by (simp add: unpack_eval)
  from UnPack_error_state [OF r1] have 1: "u1 = ?u \<and> e1 = []" by auto
  from UnPack_error_state [OF r2]
  have 2: "u2 = \<lparr> onRtp = True, onFrame = True, frameBuffer = [1, 2, 3], timestamp = 5,
         lastSequence = 11, lost = True, building = True \<rparr> \<and> e2 = [RtpSeen ?pS]"
    by auto
  from r1 r2 1 2 show ?thesis by simp
qed

theorem UnPack_flushes_previous_group_witness:
  "UnPack \<lparr> onRtp = False, onFrame = True, frameBuffer = [1, 2, 3], timestamp = 5,
            lastSequence = 9, lost = False, building = True \<rparr>
      (Inr \<lparr> SequenceNumber = 10, Timestamp = 6, Marker = 0, Payload = [0x00, 0xAA] \<rparr>)
    = (None,
       \<lparr> onRtp = False, onFrame = True, frameBuffer = [0xAA], timestamp = 6,
         lastSequence = 10, lost = False, building = True \<rparr>,
       [FrameOut [1, 2, 3] 5 True])"
proof -
  let ?u = "\<lparr> onRtp = False, onFrame = True, frameBuffer = [1, 2, 3], timestamp = 5,
            lastSequence = 9, lost = False, building = True \<rparr>"
  let ?p = "\<lparr> SequenceNumber = 10, Timestamp = 6, Marker = 0, Payload = [0x00, 0xAA] \<rparr>"
  obtain r u' evs where run: "UnPack ?u (Inr ?p) = (r, u', evs)" by (rule prod_cases3)
  have hl: "payload_header_length [0x00, 0xAA] = Inr 1" by (simp add: payload_header_length_def)
  have "\<exists>rest. evs = (if onRtp ?u then [RtpSeen ?p] else [])
                    @ FrameOut (frameBuffer ?u) (timestamp ?u) True # rest \<and>
           timestamp u' = Timestamp ?p \<and>
           (case payload_header_length (Payload ?p) of
              Inl e \<Rightarrow> r = Some e \<and> rest = [] \<and> frameBuffer u' = [] \<and> building u'
            | Inr h \<Rightarrow> r = None \<and>
                (if Marker ?p = 1
                 then rest = [FrameOut (drop h (Payload ?p)) (Timestamp ?p) (length (Payload ?p) < h)]
                      \<and> frameBuffer u' = [] \<and> \<not> building u'
                 else rest = [] \<and> frameBuffer u' = drop h (Payload ?p) \<and> building u'))"
    by (rule UnPack_flushes_previous_group [OF _ _ _ _ _ run]) simp_all
  then have "evs = [FrameOut [1, 2, 3] 5 True] \<and> r = None \<and> frameBuffer u' = [0xAA]"
    by (simp add: hl)
  moreover have "UnPack ?u (Inr ?p) = (None,
       \<lparr> onRtp = False, onFrame = True, frameBuffer = [0xAA], timestamp = 6,
         lastSequence = 10, lost = False, building = True \<rparr>,
       [FrameOut [1, 2, 3] 5 True])"
    by (simp add: unpack_eval)
  ultimately show ?thesis by simp
qed

theorem UnPack_sequence_gap_witness:
  "(Payload \<lparr> SequenceNumber = 12, Timestamp = 1000, Marker = 1, Payload = [0x00, 0xBB] \<rparr> \<noteq> [] \<and>
    unat (12 :: 16 word) \<noteq> (unat (10 :: 16 word) + 1) mod 2 ^ 16) \<and>
   (\<exists>u'. UnPack \<lparr> onRtp = False, onFrame = True, frameBuffer = [0xAA], timestamp = 1000,
                  lastSequence = 10, lost = False, building = True \<rparr>
            (Inr \<lparr> SequenceNumber = 12, Timestamp = 1000, Marker = 1, Payload = [0x00, 0xBB] \<rparr>)
          = (None, u', [FrameOut [0xAA, 0xBB] 1000 True]) \<and> lost u')"
proof -
  let ?u = "\<lparr> onRtp = False, onFrame = True, frameBuffer = [0xAA], timestamp = 1000,
                  lastSequence = 10, lost = False, building = True \<rparr>"
  let ?p = "\<lparr> SequenceNumber = 12, Timestamp = 1000, Marker = 1, Payload = [0x00, 0xBB] \<rparr>"
  obtain u' where run: "UnPack ?u (Inr ?p) = (None, u', [FrameOut [0xAA, 0xBB] 1000 True])"
    by (simp add: unpack_eval)
  from UnPack_sequence_gap [of ?p ?u None u' "[FrameOut [0xAA, 0xBB] 1000 True]"] run
  have "lost u'" by simp
  with run show ?thesis by simp
qed

theorem UnPack_preserves_buffer_invariant_witness:
  "buffer_invariant NewVP8UnPacker \<and>
   fst (snd (UnPack NewVP8UnPacker
      (Inr \<lparr> SequenceNumber = 9, Timestamp = 5, Marker = 0, Payload = [0x00, 1, 2, 3] \<rparr>)))
    = \<lparr> onRtp = False, onFrame = False, frameBuffer = [1, 2, 3], timestamp = 5, lastSequence = 9,
        lost = False, building = True \<rparr> \<and>
   buffer_invariant \<lparr> onRtp = False, onFrame = False, frameBuffer = [1, 2, 3], timestamp = 5,
        lastSequence = 9, lost = False, building = True \<rparr>"
proof -
  let ?d = "Inr \<lparr> SequenceNumber = 9, Timestamp = 5, Marker = 0, Payload = [0x00, 1, 2, 3] \<rparr>"
  have st: "fst (snd (UnPack NewVP8UnPacker ?d))
    = \<lparr> onRtp = False, onFrame = False, frameBuffer = [1, 2, 3], timestamp = 5, lastSequence = 9,
        lost = False, building = True \<rparr>"
    by (simp add: unpack_eval)
  from UnPack_preserves_buffer_invariant [of NewVP8UnPacker ?d]
  have "buffer_invariant NewVP8UnPacker \<and> buffer_invariant (fst (snd (UnPack NewVP8UnPacker ?d)))"
    by blast
  with st show ?thesis by simp
qed

section \<open>Claims about the VP9 header parser\<close>

lemma be_value_snoc: "be_value (xs @ [b]) = 256 * be_value xs + unat b"
  by (simp add: be_value_def)

lemma bit_shift_byte:
  fixes V :: nat and b :: byte
  shows "bit (256 * V + unat b) j = (if j < 8 then bit b j else bit V (j - 8))"
proof -
  have lt: "unat b < 2 ^ 8" using unsigned_less [of b] by simp
  have "256 * V + unat b = push_bit 8 V OR unat b"
    using or_push_add_nat [OF lt, of V] by simp
  moreover have "bit (unat b) j = (j < 8 \<and> bit b j)"
    by (auto simp: bit_unsigned_iff dest: bit_imp_le_length)
  ultimately show ?thesis
    by (auto simp: bit_or_iff bit_push_bit_iff)
qed

lemma bit_at_be_value:
  "i < 8 * length buf \<Longrightarrow> bit_at buf i = bit (be_value buf) (8 * length buf - 1 - i)"
proof (induction buf rule: rev_induct)
  case Nil
  then show ?case by simp
next
  case (snoc b xs)
  show ?case
  proof (cases "i < 8 * length xs")
    case True
    then have d: "i div 8 < length xs" by simp
    have j: "8 * length (xs @ [b]) - 1 - i = (8 * length xs - 1 - i) + 8" using True by simp
    have "bit_at (xs @ [b]) i = bit_at xs i"
      using d by (simp add: bit_at_def nth_append)
    also have "\<dots> = bit (be_value xs) (8 * length xs - 1 - i)" using True by (rule snoc.IH)
    also have "\<dots> = bit (be_value (xs @ [b])) (8 * length (xs @ [b]) - 1 - i)"
      unfolding j be_value_snoc bit_shift_byte by simp
    finally show ?thesis .
  next
    case False
    with snoc.prems have d: "i div 8 = length xs" by simp
    then have m: "i = 8 * length xs + i mod 8" by (metis mult_div_mod_eq)
    have j: "8 * length (xs @ [b]) - 1 - i = 7 - i mod 8"
      using m by simp
    have "bit_at (xs @ [b]) i = bit b (7 - i mod 8)"
      using d by (simp add: bit_at_def)
    also have "\<dots> = bit (256 * be_value xs + unat b) (7 - i mod 8)"
    proof -
      have "7 - i mod 8 < 8" by simp
      then show ?thesis by (simp only: bit_shift_byte if_True)
    qed
    also have "\<dots> = bit (be_value (xs @ [b])) (8 * length (xs @ [b]) - 1 - i)"
      by (simp only: j be_value_snoc)
    finally show ?thesis .
  qed
qed

lemma bits_value_big_endian:
  "p + n \<le> 8 * length buf \<Longrightarrow>
   bits_value buf p n = (be_value buf div 2 ^ (8 * length buf - (p + n))) mod 2 ^ n"
proof (induction n)
  case 0
  then show ?case by simp
next
  case (Suc n)
  define k where "k = 8 * length buf - (p + Suc n)"
  define x where "x = be_value buf div 2 ^ k"
  from Suc.prems have k1: "8 * length buf - (p + n) = Suc k" by (simp add: k_def)
  from Suc.prems have k2: "8 * length buf - 1 - (p + n) = k" by (simp add: k_def)
  from Suc.prems have lt: "p + n < 8 * length buf" by simp
  have "p + n \<le> 8 * length buf" using Suc.prems by simp
  then have "bits_value buf p n = (be_value buf div 2 ^ (8 * length buf - (p + n))) mod 2 ^ n"
    by (rule Suc.IH)
  also have "\<dots> = (be_value buf div 2 ^ Suc k) mod 2 ^ n" by (simp only: k1)
  also have "be_value buf div 2 ^ Suc k = x div 2"
    unfolding x_def by (simp only: power_Suc2 div_mult2_eq)
  finally have ih: "bits_value buf p n = (x div 2) mod 2 ^ n" .
  have "bit_at buf (p + n) = bit (be_value buf) (8 * length buf - 1 - (p + n))"
    using lt by (rule bit_at_be_value)
  also have "\<dots> = bit (be_value buf) k" by (simp only: k2)
  finally have b: "bit_at buf (p + n) = odd x"
    by (simp only: x_def bit_iff_odd)
  have "bits_value buf p (Suc n) = 2 * ((x div 2) mod 2 ^ n) + x mod 2"
    by (simp add: ih b mod_2_eq_odd)
  also have "\<dots> = x mod (2 * 2 ^ n)" by (simp add: mod_mult2_eq)
  finally show ?case by (simp add: x_def k_def)
qed

lemma keeps_GetBits: "keeps_buffer (GetBits n)"
  by (auto simp: keeps_buffer_def GetBits_def split: if_splits)

lemma keeps_SkipBits: "keeps_buffer (SkipBits n)"
  by (auto simp: keeps_buffer_def SkipBits_def split: if_splits)

lemma keeps_return: "keeps_buffer (return_r x)"
  by (simp add: keeps_buffer_def return_r_def)

lemma keeps_bind: "keeps_buffer m \<Longrightarrow> (\<And>x. keeps_buffer (f x)) \<Longrightarrow> keeps_buffer (bind_r m f)"
  unfolding keeps_buffer_def bind_r_def
  by (auto split: sum.splits prod.splits)

lemma keeps_then: "keeps_buffer m \<Longrightarrow> keeps_buffer k \<Longrightarrow> keeps_buffer (then_r m k)"
  by (simp add: then_r_def keeps_bind)

lemma keeps_when: "keeps_buffer m \<Longrightarrow> keeps_buffer (when_r c m)"
  by (simp add: when_r_def keeps_return)

lemma keeps_if: "keeps_buffer m \<Longrightarrow> keeps_buffer k \<Longrightarrow> keeps_buffer (if c then m else k)"
  by simp

lemmas keeps_intros = keeps_GetBits keeps_SkipBits keeps_return keeps_bind keeps_then keeps_when keeps_if

lemma keeps_header_prefix: "keeps_buffer vp9_header_prefix"
  unfolding vp9_header_prefix_def Let_def
  by (intro keeps_intros)

lemma GetBits_1:
  "position bs + 1 \<le> 8 * length (buffer bs) \<Longrightarrow>
   GetBits 1 bs = Inr (if bit_at (buffer bs) (position bs) then 1 else 0, bs\<lparr>position := position bs + 1\<rparr>)"
  by (simp add: GetBits_def)

lemma vp9_frame_size_result:
  assumes "q = position bs + 1 + (if bit_at (buffer bs) (position bs) then 32 else 0)"
    and "q + 32 \<le> 8 * length (buffer bs)"
  shows "vp9_frame_size bs =
     Inr ((int (bits_value (buffer bs) q 16) + 1, int (bits_value (buffer bs) (q + 16) 16) + 1),
          bs\<lparr>position := q + 32\<rparr>)"
proof -
  have one: "position bs + 1 \<le> 8 * length (buffer bs)" using assms by simp
  show ?thesis
  proof (cases "bit_at (buffer bs) (position bs)")
    case True
    with assms show ?thesis
      by (simp add: vp9_frame_size_def bind_r_def then_r_def when_r_def return_r_def
          GetBits_1 [OF one] GetBits_def SkipBits_def add.commute add.left_commute)
  next
    case False
    with assms show ?thesis
      by (simp add: vp9_frame_size_def bind_r_def then_r_def when_r_def return_r_def
          GetBits_1 [OF one] GetBits_def SkipBits_def add.commute add.left_commute)
  qed
qed

text \<open>
  C5. \<open>GetVP9Resloution\<close> returns width = (the 16-bit width-minus-1 field) + 1 and height =
  (the 16-bit height-minus-1 field) + 1, the two fields following the
  render-and-frame-size-different bit directly, or 32 bits later when that bit is set: with
  the colour configuration ending at bit \<open>position bs\<close> and \<open>q\<close> the offset so computed,
  the fields are the bits \<open>q\<close> to \<open>q + 15\<close> and \<open>q + 16\<close> to \<open>q + 31\<close> of the frame read
  as a big-endian bit string. On the profile-0 key-frame header
  82 49 83 42 00 27 F8 16 78 (width-minus-1 = 1279, height-minus-1 = 719) the result is
  (1280, 720).
\<close>

theorem GetVP9Resloution_frame_size:
  "(vp9_header_prefix (NewBitStream frame) = Inr ((), bs) \<and>
      q = position bs + 1 + (if bit_at frame (position bs) then 32 else 0) \<and>
      q + 32 \<le> 8 * length frame
    \<longrightarrow> GetVP9Resloution frame =
          Inr (int (bits_value frame q 16) + 1, int (bits_value frame (q + 16) 16) + 1) \<and>
        bits_value frame q 16 = (be_value frame div 2 ^ (8 * length frame - (q + 16))) mod 2 ^ 16 \<and>
        bits_value frame (q + 16) 16
          = (be_value frame div 2 ^ (8 * length frame - (q + 32))) mod 2 ^ 16) \<and>
   GetVP9Resloution [0x82, 0x49, 0x83, 0x42, 0x00, 0x27, 0xF8, 0x16, 0x78] = Inr (1280, 720)"
proof (intro conjI impI)
  assume a: "vp9_header_prefix (NewBitStream frame) = Inr ((), bs) \<and>
      q = position bs + 1 + (if bit_at frame (position bs) then 32 else 0) \<and>
      q + 32 \<le> 8 * length frame"
  then have pre: "vp9_header_prefix (NewBitStream frame) = Inr ((), bs)" by simp
  with keeps_header_prefix have buf: "buffer bs = frame"
    unfolding keeps_buffer_def by (fastforce simp: NewBitStream_def)
  from a buf have q: "q = position bs + 1 + (if bit_at (buffer bs) (position bs) then 32 else 0)"
    and len: "q + 32 \<le> 8 * length (buffer bs)" by simp_all
  show "GetVP9Resloution frame =
          Inr (int (bits_value frame q 16) + 1, int (bits_value frame (q + 16) 16) + 1)"
    by (simp add: GetVP9Resloution_def then_r_def bind_r_def pre vp9_frame_size_result [OF q len] buf)
  from a have l1: "q + 16 \<le> 8 * length frame" and l2: "(q + 16) + 16 \<le> 8 * length frame"
    by simp_all
  show "bits_value frame q 16 = (be_value frame div 2 ^ (8 * length frame - (q + 16))) mod 2 ^ 16"
    using l1 by (rule bits_value_big_endian)
  show "bits_value frame (q + 16) 16
          = (be_value frame div 2 ^ (8 * length frame - (q + 32))) mod 2 ^ 16"
    using bits_value_big_endian [OF l2] by (simp add: add.assoc)
next
  show "GetVP9Resloution [0x82, 0x49, 0x83, 0x42, 0x00, 0x27, 0xF8, 0x16, 0x78] = Inr (1280, 720)"
    by code_simp
qed

theorem GetVP9Resloution_frame_size_witness:
  "vp9_header_prefix (NewBitStream [0x82, 0x49, 0x83, 0x42, 0x08, 0, 0, 0, 0, 0x27, 0xF8, 0x16, 0x78])
     = Inr ((), \<lparr> buffer = [0x82, 0x49, 0x83, 0x42, 0x08, 0, 0, 0, 0, 0x27, 0xF8, 0x16, 0x78],
                  position = 36 \<rparr>) \<and>
   bit_at [0x82, 0x49, 0x83, 0x42, 0x08, 0, 0, 0, 0, 0x27, 0xF8, 0x16, 0x78] 36 \<and>
   69 + 32 \<le> 8 * length [0x82, 0x49, 0x83, 0x42, 0x08, 0, 0, 0, 0, 0x27, 0xF8, 0x16, 0x78 :: byte] \<and>
   bits_value [0x82, 0x49, 0x83, 0x42, 0x08, 0, 0, 0, 0, 0x27, 0xF8, 0x16, 0x78] 69 16 = 1279 \<and>
   bits_value [0x82, 0x49, 0x83, 0x42, 0x08, 0, 0, 0, 0, 0x27, 0xF8, 0x16, 0x78] 85 16 = 719 \<and>
   GetVP9Resloution [0x82, 0x49, 0x83, 0x42, 0x08, 0, 0, 0, 0, 0x27, 0xF8, 0x16, 0x78]
     = Inr (1280, 720)"
proof -
  let ?f = "[0x82, 0x49, 0x83, 0x42, 0x08, 0, 0, 0, 0, 0x27, 0xF8, 0x16, 0x78] :: byte list"
  let ?bs = "\<lparr> buffer = ?f, position = 36 \<rparr>"
  have pre: "vp9_header_prefix (NewBitStream ?f) = Inr ((), ?bs)" by code_simp
  have flag: "bit_at ?f 36" by code_simp
  have len: "69 + 32 \<le> 8 * length ?f" by simp
  have w: "bits_value ?f 69 16 = 1279" by code_simp
  have h: "bits_value ?f 85 16 = 719" by code_simp
  from GetVP9Resloution_frame_size [of ?f ?bs 69] pre flag len
  have "GetVP9Resloution ?f =
          Inr (int (bits_value ?f 69 16) + 1, int (bits_value ?f (69 + 16) 16) + 1)"
    by simp
  then have "GetVP9Resloution ?f = Inr (1280, 720)" by (simp add: w h)
  with pre flag len w h show ?thesis by simp
qed

text \<open>
  C10. On every non-empty input \<open>CreateVP9VpcCExtradata\<close> succeeds with an 8-byte record,
  whatever the content: the result depends on byte 0 alone and no key-frame test is made.
  On the empty input the read of byte 0, which no length test guards, panics.
\<close>

theorem CreateVP9VpcCExtradata_domain:
  "(keyframe \<noteq> [] \<longrightarrow>
      (\<exists>vpcc. CreateVP9VpcCExtradata keyframe = Inr vpcc \<and> length vpcc = 8) \<and>
      CreateVP9VpcCExtradata keyframe = CreateVP9VpcCExtradata [hd keyframe]) \<and>
   CreateVP9VpcCExtradata [] = Inl RuntimePanic"
proof (intro conjI impI)
  assume "keyframe \<noteq> []"
  then obtain b rest where k: "keyframe = b # rest" by (cases keyframe) auto
  show "\<exists>vpcc. CreateVP9VpcCExtradata keyframe = Inr vpcc \<and> length vpcc = 8"
    unfolding k by (simp add: CreateVP9VpcCExtradata_def Let_def)
  show "CreateVP9VpcCExtradata keyframe = CreateVP9VpcCExtradata [hd keyframe]"
    unfolding k by (simp add: CreateVP9VpcCExtradata_def)
next
  show "CreateVP9VpcCExtradata [] = Inl RuntimePanic"
    by (simp add: CreateVP9VpcCExtradata_def)
qed

theorem CreateVP9VpcCExtradata_domain_witness:
  "[0x00, 0xFF :: byte] \<noteq> [] \<and> \<not> IsVP9KeyFrame [0x00, 0xFF] \<and>
   CreateVP9VpcCExtradata [0x00, 0xFF] = Inr [0, 0, 0x80, 2, 2, 2, 0, 0] \<and>
   CreateVP9VpcCExtradata [0x00, 0xFF] = CreateVP9VpcCExtradata [0x00]"
proof -
  have v: "CreateVP9VpcCExtradata [0x00, 0xFF] = Inr [0, 0, 0x80, 2, 2, 2, 0, 0]"
    by (simp add: CreateVP9VpcCExtradata_def)
  have nk: "\<not> IsVP9KeyFrame [0x00, 0xFF]" by (simp add: IsVP9KeyFrame_def)
  from CreateVP9VpcCExtradata_domain [of "[0x00, 0xFF]"]
  have "CreateVP9VpcCExtradata [0x00, 0xFF] = CreateVP9VpcCExtradata [hd [0x00, 0xFF]]" by simp
  with v nk show ?thesis by simp
qed

end
